theory Spec2Isabelle
  imports Complex_Main "HOL-Library.Sublist"
begin

section \<open>Client-name reconciliation (src/client\_mapping/mapper.py)\<close>

text \<open>
  The development embeds \<^verbatim>\<open>ClientMapper._normalize_name\<close> and
  \<^verbatim>\<open>ClientMapper._match_client\<close>.

  Modelling decisions.
  \<^item> A Python \<^verbatim>\<open>str\<close> is a \<^typ>\<open>string\<close>: a list of characters, each one a
    code point below 256. On that range \<^verbatim>\<open>str.lower\<close> maps one character to one
    character and \<^verbatim>\<open>str.strip\<close> removes the twelve white-space code points
    listed in \<open>is_space\<close>.
  \<^item> The registry (\<^verbatim>\<open>self._get_clients()\<close>) and the threshold
    (\<^verbatim>\<open>self.config.client_mapping_confidence_threshold\<close>) are read from the
    object in the source; here they are arguments.
  \<^item> \<^verbatim>\<open>fuzz.ratio\<close> belongs to the third-party package fuzzywuzzy. It is an
    argument \<open>ratio\<close> of every function that calls it, so the theorems hold for any
    integer-valued scorer unless they state an assumption about it.
  \<^item> The quotient \<^verbatim>\<open>best_score / 100\<close> and the threshold are Python floats. They
    are modelled by the real numbers they denote; the claims only compare and order them.
\<close>

subsection \<open>String primitives of Python\<close>

text \<open>\<^verbatim>\<open>str.lower\<close> on code points below 256: A-Z, and the Latin-1 capitals
  192-214 and 216-222, move up by 32; everything else is unchanged.\<close>

definition lower_char :: "char \<Rightarrow> char" where
  "lower_char c =
     (let n = (of_char c :: nat)
      in if (65 \<le> n \<and> n \<le> 90) \<or> (192 \<le> n \<and> n \<le> 214) \<or> (216 \<le> n \<and> n \<le> 222)
         then char_of (n + 32) else c)"

definition lower :: "string \<Rightarrow> string" where
  "lower s = map lower_char s"

text \<open>\<^verbatim>\<open>str.isspace\<close> on code points below 256.\<close>

definition is_space :: "char \<Rightarrow> bool" where
  "is_space c =
     (let n = (of_char c :: nat)
      in (9 \<le> n \<and> n \<le> 13) \<or> (28 \<le> n \<and> n \<le> 32) \<or> n = 133 \<or> n = 160)"

text \<open>\<^verbatim>\<open>str.strip()\<close>: drop leading, then trailing white space.\<close>

definition strip :: "string \<Rightarrow> string" where
  "strip s = rev (dropWhile is_space (rev (dropWhile is_space s)))"

text \<open>\<^verbatim>\<open>s.replace(old, new)\<close>: one pass from the left over non-overlapping
  occurrences of \<open>old\<close>. With an empty \<open>old\<close> Python puts \<open>new\<close> before every
  character and at the end.\<close>

function str_replace :: "string \<Rightarrow> string \<Rightarrow> string \<Rightarrow> string" where
  "str_replace old new [] = (if old = [] then new else [])"
| "str_replace old new (c # cs) =
     (if old = [] then new @ c # str_replace old new cs
      else if prefix old (c # cs)
           then new @ str_replace old new (drop (length old) (c # cs))
           else c # str_replace old new cs)"
  by pat_completeness auto
termination
  by (relation "measure (\<lambda>(old, new, s). length s)") auto

text \<open>\<^verbatim>\<open>str(n)\<close> for an integer, as the f-strings of the reasons need it.\<close>

function str_nat :: "nat \<Rightarrow> string" where
  "str_nat n =
     (if n < 10 then [char_of (48 + n)]
      else str_nat (n div 10) @ [char_of (48 + n mod 10)])"
  by pat_completeness auto
termination
  by (relation "measure id") auto

declare str_nat.simps [simp del]

definition str_int :: "int \<Rightarrow> string" where
  "str_int i = (if i < 0 then CHR ''-'' # str_nat (nat (- i)) else str_nat (nat i))"

subsection \<open>\<^verbatim>\<open>_normalize_name\<close>\<close>

text \<open>The test \<^verbatim>\<open>if not name\<close> holds for \<^verbatim>\<open>None\<close> and for the empty string; both
  are the empty list here. The replacements are applied in the order of the list.\<close>

definition replacements :: "(string \<times> string) list" where
  "replacements =
     [('' inc.'', ''''),
      ('' incorporated'', ''''),
      ('' corp.'', ''''),
      ('' corporation'', ''''),
      ('' llc'', ''''),
      ('' l.l.c.'', ''''),
      ('' ltd'', ''''),
      ('' limited'', ''''),
      ('' gmbh'', ''''),
      ('' co.'', ''''),
      ('' company'', ''''),
      ('','', ''''),
      (''.'', '''')]"

definition normalize_name :: "string \<Rightarrow> string" where
  "normalize_name name =
     (if name = [] then []
      else strip (fold (\<lambda>(old, new) name. str_replace old new name) replacements (lower name)))"

subsection \<open>Data model\<close>

text \<open>\<^verbatim>\<open>client_info\<close>: the keys \<^verbatim>\<open>primary_name\<close> and
  \<^verbatim>\<open>alternative_names\<close> (absent reads as the empty list).\<close>

record candidate =
  primary_name :: string
  alternative_names :: "string list"

text \<open>One registry entry, with the three keys the matcher reads.\<close>

record client =
  client_id :: string
  client_name :: string
  client_aliases :: "string list"

text \<open>An entry of \<^verbatim>\<open>alternative_matches\<close>; its keys are \<^verbatim>\<open>client_id\<close>,
  \<^verbatim>\<open>client_name\<close> and \<^verbatim>\<open>confidence_score\<close>.\<close>

record alt_match =
  alt_client_id :: string
  alt_client_name :: string
  alt_confidence_score :: real

text \<open>The local variables of the scan. \<open>best_match\<close> holds a reference to a registry
  entry and is compared with \<^verbatim>\<open>is not\<close>; the entries of a registry are distinct
  objects, so the reference is the position of the entry. \<open>reasons\<close> and \<open>alternatives\<close>
  are the locals \<^verbatim>\<open>match_reasons\<close> and \<^verbatim>\<open>alternative_matches\<close>.\<close>

record match_state =
  best_match :: "nat option"
  best_score :: int
  best_client_id :: "string option"
  best_client_name :: "string option"
  reasons :: "string list"
  alternatives :: "alt_match list"

text \<open>The returned dictionary. \<^verbatim>\<open>matched_client_id\<close>, \<^verbatim>\<open>matched_client_name\<close>
  (\<open>None\<close> is Python's \<^verbatim>\<open>None\<close>) and \<^verbatim>\<open>confidence_score\<close> are keys of every
  result; for the other four keys \<open>None\<close> says that the key is absent.\<close>

record decision =
  matched_client_id :: "string option"
  matched_client_name :: "string option"
  confidence_score :: real
  recommendation :: "string option"
  suggested_client_name :: "string option"
  match_reasons :: "string list option"
  alternative_matches :: "alt_match list option"

text \<open>The two outcomes. The source labels the rejecting results with
  \<^verbatim>\<open>"recommendation": "CREATE_NEW_CLIENT"\<close>; the accepting result has no such key.\<close>

datatype outcome = USE_MATCH | CREATE_NEW_CLIENT

definition outcome_of :: "decision \<Rightarrow> outcome" where
  "outcome_of d =
     (if recommendation d = Some ''CREATE_NEW_CLIENT'' then CREATE_NEW_CLIENT else USE_MATCH)"

subsection \<open>\<^verbatim>\<open>_match_client\<close>\<close>

definition exact_reason :: string where
  "exact_reason = ''Exact name match (normalized)''"

definition name_reason :: "int \<Rightarrow> string" where
  "name_reason score = ''Fuzzy match with score '' @ str_int score @ '' against client name''"

definition alias_reason :: "int \<Rightarrow> string \<Rightarrow> string" where
  "alias_reason alias_score alias =
     ''Fuzzy match with score '' @ str_int alias_score @ '' against alias '' @
     [CHR 0x27] @ alias @ [CHR 0x27]"

definition init_state :: match_state where
  "init_state =
     \<lparr>best_match = None, best_score = 0, best_client_id = None, best_client_name = None,
      reasons = [], alternatives = []\<rparr>"

text \<open>The body of \<^verbatim>\<open>for alias in client_aliases\<close>.\<close>

definition check_alias ::
  "(string \<Rightarrow> string \<Rightarrow> int) \<Rightarrow> nat \<Rightarrow> client \<Rightarrow> string \<Rightarrow> string \<Rightarrow> match_state \<Rightarrow> match_state"
where
  "check_alias ratio idx c normalized_name alias st =
     (let alias_score = ratio normalized_name (normalize_name alias)
      in if alias_score > best_score st
         then st\<lparr>best_score := alias_score, best_match := Some idx,
                 best_client_id := Some (client_id c),
                 best_client_name := Some (client_name c),
                 reasons := [alias_reason alias_score alias]\<rparr>
         else st)"

text \<open>The body of \<^verbatim>\<open>for name_to_check in all_names_to_check\<close>; the
  \<^verbatim>\<open>continue\<close> skips the aliases once the running best exceeds 95.\<close>

definition check_name ::
  "(string \<Rightarrow> string \<Rightarrow> int) \<Rightarrow> nat \<Rightarrow> client \<Rightarrow> string \<Rightarrow> match_state \<Rightarrow> match_state"
where
  "check_name ratio idx c name_to_check st =
     (let normalized_name = normalize_name name_to_check;
          score = ratio normalized_name (normalize_name (client_name c));
          st1 = (if score > best_score st
                 then st\<lparr>best_score := score, best_match := Some idx,
                         best_client_id := Some (client_id c),
                         best_client_name := Some (client_name c),
                         reasons := [name_reason score]\<rparr>
                 else st)
      in if best_score st1 > 95 then st1
         else fold (check_alias ratio idx c normalized_name) (client_aliases c) st1)"

text \<open>One round of the outer loop for a client that is not an exact match: the loop over
  the names, then the test that appends to \<^verbatim>\<open>alternative_matches\<close>.\<close>

definition process_client ::
  "(string \<Rightarrow> string \<Rightarrow> int) \<Rightarrow> candidate \<Rightarrow> nat \<Rightarrow> client \<Rightarrow> match_state \<Rightarrow> match_state"
where
  "process_client ratio cand idx c st =
     (let st1 = fold (check_name ratio idx c) (primary_name cand # alternative_names cand) st
      in if best_score st1 < 95 \<and> best_score st1 > 60 \<and> best_match st1 \<noteq> Some idx
         then st1\<lparr>alternatives := alternatives st1 @
                     [\<lparr>alt_client_id = client_id c, alt_client_name = client_name c,
                       alt_confidence_score = real_of_int (best_score st1) / 100\<rparr>]\<rparr>
         else st1)"

text \<open>\<^verbatim>\<open>for client in existing_clients\<close>, with the \<^verbatim>\<open>break\<close> of the exact match.
  \<open>idx\<close> is the position of the head of the remaining list in the registry.\<close>

fun scan_clients ::
  "(string \<Rightarrow> string \<Rightarrow> int) \<Rightarrow> candidate \<Rightarrow> nat \<Rightarrow> client list \<Rightarrow> match_state \<Rightarrow> match_state"
where
  "scan_clients ratio cand idx [] st = st"
| "scan_clients ratio cand idx (c # cs) st =
     (if normalize_name (primary_name cand) = normalize_name (client_name c)
      then st\<lparr>best_match := Some idx, best_score := 100,
              best_client_id := Some (client_id c),
              best_client_name := Some (client_name c),
              reasons := reasons st @ [exact_reason]\<rparr>
      else scan_clients ratio cand (Suc idx) cs (process_client ratio cand idx c st))"

text \<open>\<^verbatim>\<open>sorted(alternative_matches, key=..., reverse=True)\<close>: Python reverses the
  list, sorts it stably in ascending order and reverses the result.\<close>

definition sorted_desc :: "alt_match list \<Rightarrow> alt_match list" where
  "sorted_desc alts = rev (sort_key alt_confidence_score (rev alts))"

definition match_client ::
  "(string \<Rightarrow> string \<Rightarrow> int) \<Rightarrow> real \<Rightarrow> candidate \<Rightarrow> client list \<Rightarrow> decision"
where
  "match_client ratio threshold client_info existing_clients =
     (if existing_clients = []
      then \<lparr>matched_client_id = None, matched_client_name = None, confidence_score = 0,
            recommendation = Some ''CREATE_NEW_CLIENT'',
            suggested_client_name = Some (primary_name client_info),
            match_reasons = None, alternative_matches = None\<rparr>
      else
        let st = scan_clients ratio client_info 0 existing_clients init_state;
            normalized_score = real_of_int (best_score st) / 100
        in if normalized_score \<ge> threshold
           then \<lparr>matched_client_id = best_client_id st,
                 matched_client_name = best_client_name st,
                 confidence_score = normalized_score,
                 recommendation = None,
                 suggested_client_name = None,
                 match_reasons = Some (reasons st),
                 alternative_matches = Some (take 3 (sorted_desc (alternatives st)))\<rparr>
           else \<lparr>matched_client_id = None, matched_client_name = None,
                 confidence_score = (if best_match st \<noteq> None then normalized_score else 0),
                 recommendation = Some ''CREATE_NEW_CLIENT'',
                 suggested_client_name = Some (primary_name client_info),
                 match_reasons = None,
                 alternative_matches = Some (take 5 (sorted_desc (alternatives st)))\<rparr>)"

subsection \<open>A concrete scorer\<close>

text \<open>For evaluating the matcher on concrete inputs: the ratio that fuzzywuzzy computes
  with its Levenshtein backend, \<open>2 * lcs / (|a| + |b|)\<close> as a percentage rounded to the
  nearest integer (a half, which no evaluation below meets, goes up), after the guards of
  \<^verbatim>\<open>fuzz.ratio\<close> (equal strings give 100, an empty string gives 0).
  \<open>lcs_row\<close> computes one row of the usual table of longest common subsequences.\<close>

fun lcs_row :: "char \<Rightarrow> string \<Rightarrow> nat list \<Rightarrow> nat \<Rightarrow> nat list" where
  "lcs_row x [] prev left = [left]"
| "lcs_row x (y # ys) prev left =
     left # lcs_row x ys (tl prev)
              (if x = y then Suc (hd prev) else max left (hd (tl prev)))"

definition lcs_len :: "string \<Rightarrow> string \<Rightarrow> nat" where
  "lcs_len xs ys = last (fold (\<lambda>x prev. lcs_row x ys prev 0) xs (replicate (Suc (length ys)) 0))"

definition indel_ratio :: "string \<Rightarrow> string \<Rightarrow> int" where
  "indel_ratio a b =
     (if a = b then 100
      else if a = [] \<or> b = [] then 0
      else int ((400 * lcs_len a b + (length a + length b)) div (2 * (length a + length b))))"

subsection \<open>Invariant of the scan\<close>

text \<open>Whenever the running best score is positive, a client has been recorded with it:
  \<open>best_score\<close> and \<open>best_client_id\<close> are only assigned together.\<close>

definition score_known :: "match_state \<Rightarrow> bool" where
  "score_known st \<longleftrightarrow> (0 < best_score st \<longrightarrow> best_client_id st \<noteq> None)"

text \<open>A scorer that never exceeds 100.\<close>

definition bounded_ratio :: "(string \<Rightarrow> string \<Rightarrow> int) \<Rightarrow> bool" where
  "bounded_ratio ratio \<longleftrightarrow> (\<forall>a b. ratio a b \<le> 100)"

text \<open>Every comparison that the scan makes for client \<open>k\<close> scores at most 95.\<close>

definition low_scores :: "(string \<Rightarrow> string \<Rightarrow> int) \<Rightarrow> string list \<Rightarrow> client \<Rightarrow> bool" where
  "low_scores ratio names k \<longleftrightarrow>
     (\<forall>n \<in> set names.
        ratio (normalize_name n) (normalize_name (client_name k)) \<le> 95 \<and>
        (\<forall>a \<in> set (client_aliases k). ratio (normalize_name n) (normalize_name a) \<le> 95))"

subsection \<open>Auxiliary notions for the normalizer and the concrete scorer\<close>

text \<open>The chain of replacements of \<^verbatim>\<open>_normalize_name\<close>, between \<open>lower\<close> and
  \<open>strip\<close>.\<close>

definition replaced :: "string \<Rightarrow> string" where
  "replaced s = fold (\<lambda>(old, new) name. str_replace old new name) replacements s"

text \<open>A row of the table of \<open>lcs_len\<close> for a second string of length \<open>n\<close>: its entries
  are bounded by the number \<open>k\<close> of characters read from the first string, and entry \<open>j\<close>
  by \<open>off + j\<close>.\<close>

definition row_ok :: "nat \<Rightarrow> nat \<Rightarrow> nat \<Rightarrow> nat list \<Rightarrow> bool" where
  "row_ok k off n row \<longleftrightarrow>
     length row = Suc n \<and> (\<forall>j < Suc n. row ! j \<le> k \<and> row ! j \<le> off + j)"

section \<open>Properties of the string primitives and of the normalizer\<close>

lemma lower_char_idem: "lower_char (lower_char c) = lower_char c"
proof -
  have "of_char c < (256::nat)" by simp
  then show ?thesis
    unfolding lower_char_def Let_def by (auto simp: of_char_of)
qed

lemma set_str_replace_subset: "set (str_replace old [] s) \<subseteq> set s"
proof (induction old "[] :: string" s rule: str_replace.induct)
  case (1 old)
  then show ?case by simp
next
  case (2 old c cs)
  show ?case
  proof (cases "old = []")
    case True
    then show ?thesis using 2 by auto
  next
    case False
    note ne = this
    show ?thesis
    proof (cases "prefix old (c # cs)")
      case True
      have "set (drop (length old) (c # cs)) \<subseteq> set (c # cs)" by (rule set_drop_subset)
      then show ?thesis using 2(2) [OF ne True] ne True by auto
    next
      case False
      then show ?thesis using 2(3) [OF ne False] ne by auto
    qed
  qed
qed

lemma str_replace_single: "str_replace [c] [] s = filter (\<lambda>x. x \<noteq> c) s"
  by (induction s) auto

lemma str_replace_absent:
  "old \<noteq> [] \<Longrightarrow> \<not> sublist old s \<Longrightarrow> str_replace old new s = s"
  by (induction s) (auto simp: sublist_Cons_right)

lemma set_strip_subset: "set (strip s) \<subseteq> set s"
proof -
  have "set (strip s) \<subseteq> set (rev (dropWhile is_space s))"
    unfolding strip_def using set_dropWhileD by fastforce
  also have "\<dots> \<subseteq> set s" using set_dropWhileD by fastforce
  finally show ?thesis .
qed

lemma dropWhile_rev_strip: "dropWhile is_space (rev (strip s)) = rev (strip s)"
  unfolding strip_def by (simp add: dropWhile_idem)

lemma dropWhile_strip: "dropWhile is_space (strip s) = strip s"
proof (cases "strip s")
  case Nil
  then show ?thesis by simp
next
  case (Cons a as)
  define t where "t = dropWhile is_space s"
  have st: "strip s = rev (dropWhile is_space (rev t))" by (simp add: strip_def t_def)
  have "t \<noteq> []" using Cons st by auto
  then have nsp: "\<not> is_space (hd t)" unfolding t_def by (rule hd_dropWhile)
  have pre: "prefix (strip s) t"
    unfolding st
    by (metis prefix_def rev_append rev_rev_ident takeWhile_dropWhile_id)
  then have "hd (strip s) = hd t" using Cons by (auto simp: prefix_def)
  then have "\<not> is_space a" using nsp Cons by simp
  then show ?thesis using Cons by simp
qed

lemma strip_idem: "strip (strip s) = strip s"
proof -
  have "strip (strip s) = rev (dropWhile is_space (rev (strip s)))"
    by (simp add: strip_def [of "strip s"] dropWhile_strip)
  then show ?thesis by (simp add: dropWhile_rev_strip)
qed

lemma fold_replace_set:
  "\<forall>r \<in> set rs. snd r = [] \<Longrightarrow>
   set (fold (\<lambda>(old, new) name. str_replace old new name) rs s) \<subseteq> set s"
proof (induction rs arbitrary: s)
  case Nil
  then show ?case by simp
next
  case (Cons r rs)
  obtain old new where r: "r = (old, new)" by (cases r)
  with Cons.prems have new: "new = []" by simp
  have "set (fold (\<lambda>(old, new) name. str_replace old new name) rs (str_replace old [] s))
      \<subseteq> set (str_replace old [] s)"
    using Cons.prems by (intro Cons.IH) simp
  also have "\<dots> \<subseteq> set s" by (rule set_str_replace_subset)
  finally show ?case by (simp add: r new)
qed

lemma fold_replace_absent:
  "\<forall>r \<in> set rs. fst r \<noteq> [] \<and> \<not> sublist (fst r) s \<Longrightarrow>
   fold (\<lambda>(old, new) name. str_replace old new name) rs s = s"
  by (induction rs) (auto simp: str_replace_absent)

lemma normalize_name_replaced:
  "normalize_name x = (if x = [] then [] else strip (replaced (lower x)))"
  by (simp add: normalize_name_def replaced_def)

lemma replaced_no_punct: "CHR ''.'' \<notin> set (replaced s) \<and> CHR '','' \<notin> set (replaced s)"
  by (simp add: replaced_def replacements_def str_replace_single)

lemma replaced_subset: "set (replaced s) \<subseteq> set s"
  unfolding replaced_def by (rule fold_replace_set) (simp add: replacements_def)

lemma lower_fixed: "c \<in> set (lower s) \<Longrightarrow> lower_char c = c"
  by (auto simp: lower_def lower_char_idem)

lemma normalize_name_chars:
  "c \<in> set (normalize_name x) \<Longrightarrow> lower_char c = c \<and> c \<noteq> CHR ''.'' \<and> c \<noteq> CHR '',''"
proof -
  assume c: "c \<in> set (normalize_name x)"
  then have ne: "x \<noteq> []" by (auto simp: normalize_name_def)
  with c have "c \<in> set (strip (replaced (lower x)))" by (simp add: normalize_name_replaced)
  then have r: "c \<in> set (replaced (lower x))" using set_strip_subset by blast
  then have "c \<in> set (lower x)" using replaced_subset by blast
  then have "lower_char c = c" by (rule lower_fixed)
  moreover have "c \<noteq> CHR ''.'' \<and> c \<noteq> CHR '',''" using r replaced_no_punct by blast
  ultimately show ?thesis by simp
qed

lemma strip_normalize_name: "strip (normalize_name x) = normalize_name x"
  by (simp add: normalize_name_def strip_idem) (simp add: strip_def)

section \<open>Properties of the scan\<close>

lemma check_alias_known: "score_known st \<Longrightarrow> score_known (check_alias ratio idx c n a st)"
  by (simp add: check_alias_def Let_def score_known_def)

lemma fold_check_alias_known:
  "score_known st \<Longrightarrow> score_known (fold (check_alias ratio idx c n) as st)"
  by (induction as arbitrary: st) (simp_all add: check_alias_known)

lemma check_name_unfold:
  "check_name ratio idx c n st =
     (let score = ratio (normalize_name n) (normalize_name (client_name c));
          st1 = (if score > best_score st
                 then st\<lparr>best_score := score, best_match := Some idx,
                         best_client_id := Some (client_id c),
                         best_client_name := Some (client_name c),
                         reasons := [name_reason score]\<rparr>
                 else st)
      in if best_score st1 > 95 then st1
         else fold (check_alias ratio idx c (normalize_name n)) (client_aliases c) st1)"
  by (simp add: check_name_def Let_def)

lemma check_name_known: "score_known st \<Longrightarrow> score_known (check_name ratio idx c n st)"
proof -
  assume k: "score_known st"
  define score where "score = ratio (normalize_name n) (normalize_name (client_name c))"
  define st1 where "st1 = (if score > best_score st
                 then st\<lparr>best_score := score, best_match := Some idx,
                         best_client_id := Some (client_id c),
                         best_client_name := Some (client_name c),
                         reasons := [name_reason score]\<rparr>
                 else st)"
  have k1: "score_known st1" using k by (simp add: st1_def score_known_def)
  have "check_name ratio idx c n st =
      (if best_score st1 > 95 then st1
       else fold (check_alias ratio idx c (normalize_name n)) (client_aliases c) st1)"
    by (simp add: check_name_unfold Let_def st1_def score_def)
  then show ?thesis using k1 by (simp add: fold_check_alias_known)
qed

lemma fold_check_name_known:
  "score_known st \<Longrightarrow> score_known (fold (check_name ratio idx c) ns st)"
  by (induction ns arbitrary: st) (simp_all add: check_name_known)

lemma process_client_known:
  "score_known st \<Longrightarrow> score_known (process_client ratio cand idx c st)"
proof -
  assume "score_known st"
  then have "score_known
      (fold (check_name ratio idx c) (primary_name cand # alternative_names cand) st)"
    by (rule fold_check_name_known)
  then show ?thesis
    by (simp add: process_client_def Let_def score_known_def)
qed

lemma scan_clients_known:
  "score_known st \<Longrightarrow> score_known (scan_clients ratio cand idx cs st)"
proof (induction cs arbitrary: idx st)
  case Nil
  then show ?case by simp
next
  case (Cons c cs)
  show ?case
  proof (cases "normalize_name (primary_name cand) = normalize_name (client_name c)")
    case True
    then show ?thesis by (simp add: score_known_def)
  next
    case False
    then show ?thesis using Cons by (simp add: process_client_known)
  qed
qed

text \<open>The scan up to and including the first client whose normalized name equals the
  normalized primary name: the clients before it are processed, the \<^verbatim>\<open>break\<close> leaves
  the rest of the registry unread.\<close>

lemma scan_clients_exact:
  "\<forall>k \<in> set pre. normalize_name (client_name k) \<noteq> normalize_name (primary_name cand) \<Longrightarrow>
   normalize_name (client_name c) = normalize_name (primary_name cand) \<Longrightarrow>
   scan_clients ratio cand idx (pre @ c # post) st =
     (scan_clients ratio cand idx pre st)
       \<lparr>best_match := Some (idx + length pre), best_score := 100,
        best_client_id := Some (client_id c),
        best_client_name := Some (client_name c),
        reasons := reasons (scan_clients ratio cand idx pre st) @ [exact_reason]\<rparr>"
proof (induction pre arbitrary: idx st)
  case Nil
  then show ?case by simp
next
  case (Cons k pre)
  from Cons.prems
  have ne: "normalize_name (primary_name cand) \<noteq> normalize_name (client_name k)"
    by auto
  from Cons.prems
  have rest: "\<forall>k \<in> set pre.
      normalize_name (client_name k) \<noteq> normalize_name (primary_name cand)"
    by simp
  show ?case
    using ne Cons.IH [OF rest Cons.prems(2), of "Suc idx" "process_client ratio cand idx k st"]
    by simp
qed

subsection \<open>Sorting of the alternatives\<close>

lemma sorted_desc_sorted: "sorted_wrt (\<ge>) (map alt_confidence_score (sorted_desc alts))"
proof -
  have "sorted (map alt_confidence_score (sort_key alt_confidence_score (rev alts)))"
    by (rule sorted_sort_key)
  then have "sorted_wrt (\<lambda>x y. y \<ge> x)
      (map alt_confidence_score (sort_key alt_confidence_score (rev alts)))"
    by (simp add: sorted_wrt_map)
  then show ?thesis
    unfolding sorted_desc_def by (simp add: rev_map [symmetric] sorted_wrt_rev)
qed

lemma take_sorted_desc:
  "sorted_wrt (\<ge>) (map alt_confidence_score (take n (sorted_desc alts)))"
proof -
  have "sorted_wrt (\<ge>) (take n (map alt_confidence_score (sorted_desc alts)))"
    using sorted_desc_sorted by (rule sorted_wrt_take)
  then show ?thesis by (simp add: take_map)
qed

subsection \<open>The scan once the best score is 100\<close>

lemma check_alias_top:
  "bounded_ratio ratio \<Longrightarrow> best_score st = 100 \<Longrightarrow> check_alias ratio idx c n a st = st"
proof -
  assume "bounded_ratio ratio" and top: "best_score st = 100"
  then have "ratio n (normalize_name a) \<le> 100" by (simp add: bounded_ratio_def)
  with top show ?thesis by (simp add: check_alias_def Let_def)
qed

lemma fold_check_alias_top:
  "bounded_ratio ratio \<Longrightarrow> best_score st = 100 \<Longrightarrow>
   fold (check_alias ratio idx c n) as st = st"
  by (induction as) (simp_all add: check_alias_top)

lemma check_name_top:
  "bounded_ratio ratio \<Longrightarrow> best_score st = 100 \<Longrightarrow> check_name ratio idx c n st = st"
proof -
  assume "bounded_ratio ratio" and top: "best_score st = 100"
  then have "ratio (normalize_name n) (normalize_name (client_name c)) \<le> 100"
    by (simp add: bounded_ratio_def)
  with top show ?thesis by (simp add: check_name_def Let_def)
qed

lemma fold_check_name_top:
  "bounded_ratio ratio \<Longrightarrow> best_score st = 100 \<Longrightarrow>
   fold (check_name ratio idx c) ns st = st"
  by (induction ns) (simp_all add: check_name_top)

lemma process_client_top:
  "bounded_ratio ratio \<Longrightarrow> best_score st = 100 \<Longrightarrow> process_client ratio cand idx c st = st"
  by (simp add: process_client_def Let_def fold_check_name_top check_name_top)

lemma scan_clients_top:
  "bounded_ratio ratio \<Longrightarrow> best_score st = 100 \<Longrightarrow>
   \<forall>k \<in> set cs. normalize_name (client_name k) \<noteq> normalize_name (primary_name cand) \<Longrightarrow>
   scan_clients ratio cand idx cs st = st"
proof (induction cs arbitrary: idx)
  case Nil
  then show ?case by simp
next
  case (Cons k cs)
  from Cons.prems(3)
  have ne: "normalize_name (primary_name cand) \<noteq> normalize_name (client_name k)" by auto
  from Cons.prems(3)
  have rest: "\<forall>k \<in> set cs. normalize_name (client_name k) \<noteq> normalize_name (primary_name cand)"
    by simp
  show ?case
    using ne Cons.IH [OF Cons.prems(1,2) rest] Cons.prems(1,2)
    by (simp add: process_client_top)
qed

subsection \<open>The scan while every score is at most 95\<close>

lemma check_alias_low:
  "best_score st \<le> 95 \<Longrightarrow> ratio n (normalize_name a) \<le> 95 \<Longrightarrow>
   best_score (check_alias ratio idx c n a st) \<le> 95"
  by (simp add: check_alias_def Let_def)

lemma fold_check_alias_low:
  "best_score st \<le> 95 \<Longrightarrow> \<forall>a \<in> set as. ratio n (normalize_name a) \<le> 95 \<Longrightarrow>
   best_score (fold (check_alias ratio idx c n) as st) \<le> 95"
  by (induction as arbitrary: st) (simp_all add: check_alias_low)

lemma check_name_low:
  assumes "best_score st \<le> 95"
    and "ratio (normalize_name n) (normalize_name (client_name c)) \<le> 95"
    and "\<forall>a \<in> set (client_aliases c). ratio (normalize_name n) (normalize_name a) \<le> 95"
  shows "best_score (check_name ratio idx c n st) \<le> 95"
  using assms by (simp add: check_name_def Let_def fold_check_alias_low)

lemma fold_check_name_low:
  "best_score st \<le> 95 \<Longrightarrow> low_scores ratio ns c \<Longrightarrow>
   best_score (fold (check_name ratio idx c) ns st) \<le> 95"
proof (induction ns arbitrary: st)
  case Nil
  then show ?case by simp
next
  case (Cons n ns)
  from Cons.prems(2) have l: "low_scores ratio ns c" by (simp add: low_scores_def)
  from Cons.prems have "best_score (check_name ratio idx c n st) \<le> 95"
    by (intro check_name_low) (simp_all add: low_scores_def)
  then show ?case using Cons.IH [OF _ l] by simp
qed

lemma process_client_low:
  "best_score st \<le> 95 \<Longrightarrow>
   low_scores ratio (primary_name cand # alternative_names cand) c \<Longrightarrow>
   best_score (process_client ratio cand idx c st) \<le> 95"
  using fold_check_name_low [of st ratio "primary_name cand # alternative_names cand" c idx]
  by (simp add: process_client_def Let_def)

lemma scan_clients_append:
  "\<forall>k \<in> set pre. normalize_name (client_name k) \<noteq> normalize_name (primary_name cand) \<Longrightarrow>
   scan_clients ratio cand idx (pre @ rest) st =
   scan_clients ratio cand (idx + length pre) rest (scan_clients ratio cand idx pre st)"
proof (induction pre arbitrary: idx st)
  case Nil
  then show ?case by simp
next
  case (Cons k pre)
  from Cons.prems
  have ne: "normalize_name (primary_name cand) \<noteq> normalize_name (client_name k)" by auto
  from Cons.prems
  have rest: "\<forall>k \<in> set pre. normalize_name (client_name k) \<noteq> normalize_name (primary_name cand)"
    by simp
  show ?case using ne Cons.IH [OF rest] by simp
qed

lemma scan_clients_low:
  "best_score st \<le> 95 \<Longrightarrow>
   \<forall>k \<in> set pre. normalize_name (client_name k) \<noteq> normalize_name (primary_name cand) \<Longrightarrow>
   \<forall>k \<in> set pre. low_scores ratio (primary_name cand # alternative_names cand) k \<Longrightarrow>
   best_score (scan_clients ratio cand idx pre st) \<le> 95"
proof (induction pre arbitrary: idx st)
  case Nil
  then show ?case by simp
next
  case (Cons k pre)
  from Cons.prems(2)
  have ne: "normalize_name (primary_name cand) \<noteq> normalize_name (client_name k)" by auto
  have "best_score (process_client ratio cand idx k st) \<le> 95"
    using Cons.prems by (intro process_client_low) simp_all
  then have "best_score (scan_clients ratio cand (Suc idx) pre (process_client ratio cand idx k st)) \<le> 95"
    using Cons.prems by (intro Cons.IH) simp_all
  then show ?case using ne by simp
qed

subsection \<open>The first alias that scores 100\<close>

lemma fold_check_alias_win:
  "bounded_ratio ratio \<Longrightarrow> best_score st < 100 \<Longrightarrow>
   find (\<lambda>a. ratio n (normalize_name a) = 100) as = Some w \<Longrightarrow>
   fold (check_alias ratio idx c n) as st =
     st\<lparr>best_score := 100, best_match := Some idx,
        best_client_id := Some (client_id c),
        best_client_name := Some (client_name c),
        reasons := [alias_reason 100 w]\<rparr>"
proof (induction as arbitrary: st)
  case Nil
  then show ?case by simp
next
  case (Cons a as)
  show ?case
  proof (cases "ratio n (normalize_name a) = 100")
    case True
    with Cons.prems(3) have w: "w = a" by simp
    have step: "check_alias ratio idx c n a st =
        st\<lparr>best_score := 100, best_match := Some idx,
        best_client_id := Some (client_id c),
        best_client_name := Some (client_name c),
        reasons := [alias_reason 100 w]\<rparr>"
      using True Cons.prems(2) by (simp add: check_alias_def Let_def w)
    show ?thesis
      by (simp add: step fold_check_alias_top [OF Cons.prems(1)])
  next
    case False
    with Cons.prems(3)
    have f: "find (\<lambda>a. ratio n (normalize_name a) = 100) as = Some w" by simp
    from False Cons.prems(1) have lt: "ratio n (normalize_name a) < 100"
      by (simp add: bounded_ratio_def order_less_le)
    have b: "best_score (check_alias ratio idx c n a st) < 100"
      using lt Cons.prems(2) by (simp add: check_alias_def Let_def)
    have "fold (check_alias ratio idx c n) as (check_alias ratio idx c n a st) =
       (check_alias ratio idx c n a st)\<lparr>best_score := 100, best_match := Some idx,
        best_client_id := Some (client_id c),
        best_client_name := Some (client_name c),
        reasons := [alias_reason 100 w]\<rparr>"
      using Cons.prems(1) b f by (rule Cons.IH)
    also have "\<dots> = st\<lparr>best_score := 100, best_match := Some idx,
        best_client_id := Some (client_id c),
        best_client_name := Some (client_name c),
        reasons := [alias_reason 100 w]\<rparr>"
      by (simp add: check_alias_def Let_def)
    finally show ?thesis by simp
  qed
qed

lemma process_client_win:
  assumes b: "bounded_ratio ratio"
    and st: "best_score st \<le> 95"
    and nm: "ratio (normalize_name (primary_name cand)) (normalize_name (client_name c)) \<le> 95"
    and w: "find (\<lambda>a. ratio (normalize_name (primary_name cand)) (normalize_name a) = 100)
        (client_aliases c) = Some w"
  shows "process_client ratio cand idx c st =
     st\<lparr>best_score := 100, best_match := Some idx,
        best_client_id := Some (client_id c),
        best_client_name := Some (client_name c),
        reasons := [alias_reason 100 w]\<rparr>"
proof -
  define np where "np = normalize_name (primary_name cand)"
  define score where "score = ratio np (normalize_name (client_name c))"
  define st1 where "st1 = (if score > best_score st
                 then st\<lparr>best_score := score, best_match := Some idx,
                         best_client_id := Some (client_id c),
                         best_client_name := Some (client_name c),
                         reasons := [name_reason score]\<rparr>
                 else st)"
  have s95: "score \<le> 95" using nm by (simp add: score_def np_def)
  have b1: "best_score st1 \<le> 95" using st s95 by (simp add: st1_def)
  then have b1': "best_score st1 < 100" by simp
  have "check_name ratio idx c (primary_name cand) st =
      (if best_score st1 > 95 then st1
       else fold (check_alias ratio idx c np) (client_aliases c) st1)"
    by (simp add: check_name_def Let_def st1_def score_def np_def)
  also have "\<dots> = fold (check_alias ratio idx c np) (client_aliases c) st1"
    using b1 by simp
  also have "\<dots> = st1\<lparr>best_score := 100, best_match := Some idx,
        best_client_id := Some (client_id c),
        best_client_name := Some (client_name c),
        reasons := [alias_reason 100 w]\<rparr>"
    using b b1' w unfolding np_def [symmetric] by (rule fold_check_alias_win)
  also have "\<dots> = st\<lparr>best_score := 100, best_match := Some idx,
        best_client_id := Some (client_id c),
        best_client_name := Some (client_name c),
        reasons := [alias_reason 100 w]\<rparr>"
    by (simp add: st1_def)
  finally have first: "check_name ratio idx c (primary_name cand) st =
      st\<lparr>best_score := 100, best_match := Some idx,
        best_client_id := Some (client_id c),
        best_client_name := Some (client_name c),
        reasons := [alias_reason 100 w]\<rparr>" .
  show ?thesis
    by (simp add: process_client_def Let_def first fold_check_name_top [OF b])
qed

section \<open>The concrete scorer never exceeds 100\<close>

lemma lcs_row_ok:
  "row_ok k off (length ys) prev \<Longrightarrow> left \<le> Suc k \<Longrightarrow> left \<le> off \<Longrightarrow>
   row_ok (Suc k) off (length ys) (lcs_row x ys prev left)"
proof (induction ys arbitrary: prev left off)
  case Nil
  then show ?case by (simp add: row_ok_def)
next
  case (Cons y ys)
  from Cons.prems(1) obtain p0 p1 rest where prev: "prev = p0 # p1 # rest"
    by (cases prev; cases "tl prev") (auto simp: row_ok_def)
  from Cons.prems(1) have len: "length rest = length ys" by (simp add: row_ok_def prev)
  from Cons.prems(1) have p0: "p0 \<le> k" "p0 \<le> off"
    by (auto simp: row_ok_def prev)
  from Cons.prems(1) have "prev ! 1 \<le> k \<and> prev ! 1 \<le> off + 1"
    unfolding row_ok_def by (metis One_nat_def length_Cons less_Suc_eq_0_disj list.size(4) zero_less_Suc Suc_less_eq)
  then have p1: "p1 \<le> k" "p1 \<le> Suc off" by (simp_all add: prev)
  have tl_ok: "row_ok k (Suc off) (length ys) (p1 # rest)"
    unfolding row_ok_def
  proof (intro conjI allI impI)
    show "length (p1 # rest) = Suc (length ys)" by (simp add: len)
  next
    fix j assume "j < Suc (length ys)"
    then have "Suc j < Suc (length (y # ys))" by simp
    with Cons.prems(1) have "prev ! Suc j \<le> k \<and> prev ! Suc j \<le> off + Suc j"
      unfolding row_ok_def by blast
    then show "(p1 # rest) ! j \<le> k" and "(p1 # rest) ! j \<le> Suc off + j"
      by (simp_all add: prev)
  qed
  define left' where "left' = (if x = y then Suc p0 else max left p1)"
  have l1: "left' \<le> Suc k" using p0 p1 Cons.prems(2) by (simp add: left'_def)
  have l2: "left' \<le> Suc off" using p0 p1 Cons.prems(3) by (simp add: left'_def)
  have rec: "row_ok (Suc k) (Suc off) (length ys) (lcs_row x ys (p1 # rest) left')"
    using tl_ok l1 l2 by (rule Cons.IH)
  have eq: "lcs_row x (y # ys) prev left = left # lcs_row x ys (p1 # rest) left'"
    by (simp add: prev left'_def)
  show ?case
    unfolding eq row_ok_def
  proof (intro conjI allI impI)
    show "length (left # lcs_row x ys (p1 # rest) left') = Suc (length (y # ys))"
      using rec by (simp add: row_ok_def)
  next
    fix j assume j: "j < Suc (length (y # ys))"
    show "(left # lcs_row x ys (p1 # rest) left') ! j \<le> Suc k"
      using rec j Cons.prems(2) by (cases j) (simp_all add: row_ok_def)
    show "(left # lcs_row x ys (p1 # rest) left') ! j \<le> off + j"
      using rec j Cons.prems(3) by (cases j) (simp_all add: row_ok_def)
  qed
qed

lemma fold_lcs_row_ok:
  "row_ok k 0 (length ys) row \<Longrightarrow>
   row_ok (k + length xs) 0 (length ys) (fold (\<lambda>x prev. lcs_row x ys prev 0) xs row)"
proof (induction xs arbitrary: k row)
  case Nil
  then show ?case by simp
next
  case (Cons x xs)
  have "row_ok (Suc k) 0 (length ys) (lcs_row x ys row 0)"
    using Cons.prems by (rule lcs_row_ok) simp_all
  then have "row_ok (Suc k + length xs) 0 (length ys)
      (fold (\<lambda>x prev. lcs_row x ys prev 0) xs (lcs_row x ys row 0))"
    by (rule Cons.IH)
  then show ?case by simp
qed

lemma lcs_len_le: "lcs_len xs ys \<le> length xs \<and> lcs_len xs ys \<le> length ys"
proof -
  have "row_ok 0 0 (length ys) (replicate (Suc (length ys)) 0)"
    unfolding row_ok_def by (simp add: nth_replicate del: replicate_Suc)
  then have ok: "row_ok (0 + length xs) 0 (length ys)
      (fold (\<lambda>x prev. lcs_row x ys prev 0) xs (replicate (Suc (length ys)) 0))"
    by (rule fold_lcs_row_ok)
  define row where "row = fold (\<lambda>x prev. lcs_row x ys prev 0) xs (replicate (Suc (length ys)) 0)"
  from ok have len: "length row = Suc (length ys)"
    and b: "row ! length ys \<le> length xs \<and> row ! length ys \<le> length ys"
    by (simp_all add: row_ok_def row_def)
  from len have "row \<noteq> []" by auto
  then have "last row = row ! length ys" using len by (simp add: last_conv_nth)
  then show ?thesis using b by (simp add: lcs_len_def row_def)
qed

lemma indel_ratio_le: "indel_ratio a b \<le> 100"
proof (cases "a = b \<or> a = [] \<or> b = []")
  case True
  then show ?thesis by (auto simp: indel_ratio_def)
next
  case False
  define t where "t = length a + length b"
  define l where "l = lcs_len a b"
  have "2 * l \<le> t" using lcs_len_le [of a b] by (simp add: t_def l_def)
  moreover have "0 < t" using False by (simp add: t_def)
  ultimately have "400 * l + t < 101 * (2 * t)" by linarith
  then have "(400 * l + t) div (2 * t) < 101" by (rule less_mult_imp_div_less)
  then have "int ((400 * l + t) div (2 * t)) \<le> 100" by simp
  then show ?thesis using False by (simp add: indel_ratio_def t_def l_def)
qed

lemma indel_ratio_same: "indel_ratio s s = 100"
  by (simp add: indel_ratio_def)

section \<open>The claims\<close>

text \<open>C1. If the registry holds a client whose name normalizes to the normalized primary
  name, and the threshold is at most 1.0, the result is \<open>USE_MATCH\<close> with confidence 1.0;
  the first such client \<open>c\<close> (no client before it, in \<open>pre\<close>, matches exactly) is
  selected, the last reason is the exact-match reason, and the clients after \<open>c\<close> are not
  examined: the result is the one for the registry cut off after \<open>c\<close>.\<close>

theorem exact_match_short_circuit:
  assumes "\<forall>k \<in> set pre.
      normalize_name (client_name k) \<noteq> normalize_name (primary_name cand)"
    and "normalize_name (client_name c) = normalize_name (primary_name cand)"
    and "thr \<le> 1"
  shows "outcome_of (match_client ratio thr cand (pre @ c # post)) = USE_MATCH \<and>
     confidence_score (match_client ratio thr cand (pre @ c # post)) = 1 \<and>
     matched_client_id (match_client ratio thr cand (pre @ c # post)) = Some (client_id c) \<and>
     matched_client_name (match_client ratio thr cand (pre @ c # post)) =
       Some (client_name c) \<and>
     (\<exists>rs. match_reasons (match_client ratio thr cand (pre @ c # post)) =
       Some (rs @ [exact_reason])) \<and>
     match_client ratio thr cand (pre @ c # post) = match_client ratio thr cand (pre @ [c])"
  using assms(3)
  by (simp add: match_client_def Let_def outcome_of_def
      scan_clients_exact [OF assms(1,2)])

theorem exact_match_short_circuit_witness:
  "normalize_name ''Initech'' \<noteq> normalize_name ''Acme Inc.'' \<and>
   normalize_name ''ACME, Inc.'' = normalize_name ''Acme Inc.'' \<and>
   normalize_name ''Acme Inc.'' = normalize_name ''Acme Inc.'' \<and>
   outcome_of (match_client indel_ratio (3/4)
     \<lparr>primary_name = ''Acme Inc.'', alternative_names = []\<rparr>
     [\<lparr>client_id = ''C1'', client_name = ''Initech'', client_aliases = []\<rparr>,
      \<lparr>client_id = ''C2'', client_name = ''ACME, Inc.'', client_aliases = []\<rparr>,
      \<lparr>client_id = ''C3'', client_name = ''Acme Inc.'', client_aliases = []\<rparr>]) = USE_MATCH \<and>
   matched_client_id (match_client indel_ratio (3/4)
     \<lparr>primary_name = ''Acme Inc.'', alternative_names = []\<rparr>
     [\<lparr>client_id = ''C1'', client_name = ''Initech'', client_aliases = []\<rparr>,
      \<lparr>client_id = ''C2'', client_name = ''ACME, Inc.'', client_aliases = []\<rparr>,
      \<lparr>client_id = ''C3'', client_name = ''Acme Inc.'', client_aliases = []\<rparr>]) = Some ''C2''"
proof -
  have h1: "normalize_name ''Initech'' \<noteq> normalize_name ''Acme Inc.''" by code_simp
  have h2: "normalize_name ''ACME, Inc.'' = normalize_name ''Acme Inc.''" by code_simp
  have h3: "(3/4 :: real) \<le> 1" by simp
  from h1 have p1: "\<forall>k \<in> set [\<lparr>client_id = ''C1'', client_name = ''Initech'', client_aliases = []\<rparr>].
      normalize_name (client_name k) \<noteq>
      normalize_name (primary_name \<lparr>primary_name = ''Acme Inc.'', alternative_names = []\<rparr>)"
    by simp
  from h2 have p2: "normalize_name
      (client_name \<lparr>client_id = ''C2'', client_name = ''ACME, Inc.'', client_aliases = []\<rparr>) =
      normalize_name (primary_name \<lparr>primary_name = ''Acme Inc.'', alternative_names = []\<rparr>)"
    by simp
  note r = exact_match_short_circuit [OF p1 p2 h3, of indel_ratio
      "[\<lparr>client_id = ''C3'', client_name = ''Acme Inc.'', client_aliases = []\<rparr>]"]
  have a: "outcome_of (match_client indel_ratio (3/4)
     \<lparr>primary_name = ''Acme Inc.'', alternative_names = []\<rparr>
     [\<lparr>client_id = ''C1'', client_name = ''Initech'', client_aliases = []\<rparr>,
      \<lparr>client_id = ''C2'', client_name = ''ACME, Inc.'', client_aliases = []\<rparr>,
      \<lparr>client_id = ''C3'', client_name = ''Acme Inc.'', client_aliases = []\<rparr>]) = USE_MATCH"
    using r [THEN conjunct1] by simp
  have b: "matched_client_id (match_client indel_ratio (3/4)
     \<lparr>primary_name = ''Acme Inc.'', alternative_names = []\<rparr>
     [\<lparr>client_id = ''C1'', client_name = ''Initech'', client_aliases = []\<rparr>,
      \<lparr>client_id = ''C2'', client_name = ''ACME, Inc.'', client_aliases = []\<rparr>,
      \<lparr>client_id = ''C3'', client_name = ''Acme Inc.'', client_aliases = []\<rparr>]) = Some ''C2''"
    using r [THEN conjunct2, THEN conjunct2, THEN conjunct1] by simp
  show ?thesis using h1 h2 a b by simp
qed

text \<open>C2 (the code differs). The source appends a client to the alternatives when the
  running best score of the whole scan, not the client's own score, lies strictly between
  60 and 95 and the client is not the running best; the entry carries the running best
  score divided by 100. Here "Initech" scores 19 against "Globex Trading" and is
  recorded with confidence 0.79, the score of the other client.\<close>

theorem alternative_carries_running_best:
  "indel_ratio (normalize_name ''Globex Trading'') (normalize_name ''Globex Traders'') = 79 \<and>
   indel_ratio (normalize_name ''Globex Trading'') (normalize_name ''Initech'') = 19 \<and>
   match_client indel_ratio (3/4)
     \<lparr>primary_name = ''Globex Trading'', alternative_names = []\<rparr>
     [\<lparr>client_id = ''C1'', client_name = ''Globex Traders'', client_aliases = []\<rparr>,
      \<lparr>client_id = ''C2'', client_name = ''Initech'', client_aliases = []\<rparr>] =
   \<lparr>matched_client_id = Some ''C1'', matched_client_name = Some ''Globex Traders'',
    confidence_score = 79 / 100, recommendation = None, suggested_client_name = None,
    match_reasons = Some [''Fuzzy match with score 79 against client name''],
    alternative_matches =
      Some [\<lparr>alt_client_id = ''C2'', alt_client_name = ''Initech'',
             alt_confidence_score = 79 / 100\<rparr>]\<rparr>"
  by code_simp

text \<open>C3, as stated, fails: \<^verbatim>\<open>" inc."\<close> is in the replacement list only with its
  period, so "ACME INC" keeps its designator.\<close>

theorem normalize_acme_inc_differs:
  "normalize_name ''Acme Inc.'' = ''acme'' \<and>
   normalize_name ''ACME INC'' = ''acme inc'' \<and>
   normalize_name ''Acme Inc.'' \<noteq> normalize_name ''ACME INC''"
  by code_simp

text \<open>C3, amended. The normalizer is case-insensitive: two names that are equal after
  lower-casing have the same normalized form; so \<^verbatim>\<open>normalize("Acme Inc.")\<close> equals
  \<^verbatim>\<open>normalize("ACME INC.")\<close>.\<close>

theorem normalize_case_insensitive:
  "lower x = lower y \<Longrightarrow> normalize_name x = normalize_name y"
proof -
  assume e: "lower x = lower y"
  then have "length x = length y" unfolding lower_def by (rule map_eq_imp_length_eq)
  then have "x = [] \<longleftrightarrow> y = []" by auto
  with e show ?thesis by (simp add: normalize_name_def)
qed

theorem normalize_case_insensitive_witness:
  "lower ''Acme Inc.'' = lower ''ACME INC.'' \<and>
   normalize_name ''Acme Inc.'' = normalize_name ''ACME INC.''"
proof -
  have h: "lower ''Acme Inc.'' = lower ''ACME INC.''" by code_simp
  from h normalize_case_insensitive [OF h] show ?thesis by (rule conjI)
qed

text \<open>C4, as stated, fails: with threshold 0 and a registry in which nothing resembles
  the candidate, the accepting branch is taken with no client recorded.\<close>

theorem use_match_without_client_at_threshold_zero:
  "outcome_of (match_client indel_ratio 0
     \<lparr>primary_name = ''Zynga'', alternative_names = []\<rparr>
     [\<lparr>client_id = ''C1'', client_name = ''Hooli'', client_aliases = []\<rparr>]) = USE_MATCH \<and>
   matched_client_id (match_client indel_ratio 0
     \<lparr>primary_name = ''Zynga'', alternative_names = []\<rparr>
     [\<lparr>client_id = ''C1'', client_name = ''Hooli'', client_aliases = []\<rparr>]) = None"
  by code_simp

text \<open>C4, amended. For every candidate, registry and threshold above 0: a \<open>USE_MATCH\<close>
  decision has a matched client id and a confidence of at least the threshold; a
  \<open>CREATE_NEW_CLIENT\<close> decision has no matched client id.\<close>

theorem decision_invariant_positive_threshold:
  "0 < thr \<Longrightarrow>
   (outcome_of (match_client ratio thr cand reg) = USE_MATCH \<longrightarrow>
      matched_client_id (match_client ratio thr cand reg) \<noteq> None \<and>
      confidence_score (match_client ratio thr cand reg) \<ge> thr) \<and>
   (outcome_of (match_client ratio thr cand reg) = CREATE_NEW_CLIENT \<longrightarrow>
      matched_client_id (match_client ratio thr cand reg) = None)"
proof -
  assume pos: "0 < thr"
  have "score_known init_state" by (simp add: score_known_def init_state_def)
  then have k: "score_known (scan_clients ratio cand 0 reg init_state)"
    by (rule scan_clients_known)
  show ?thesis
  proof (cases "reg = []")
    case True
    then show ?thesis by (simp add: match_client_def outcome_of_def)
  next
    case False
    then show ?thesis using k pos
      by (auto simp: match_client_def outcome_of_def Let_def score_known_def)
  qed
qed

theorem decision_invariant_positive_threshold_witness:
  "(0 :: real) < 3/4 \<and>
   outcome_of (match_client indel_ratio (3/4)
     \<lparr>primary_name = ''Globex Trading'', alternative_names = []\<rparr>
     [\<lparr>client_id = ''C1'', client_name = ''Globex Traders'', client_aliases = []\<rparr>,
      \<lparr>client_id = ''C2'', client_name = ''Initech'', client_aliases = []\<rparr>]) = USE_MATCH \<and>
   matched_client_id (match_client indel_ratio (3/4)
     \<lparr>primary_name = ''Globex Trading'', alternative_names = []\<rparr>
     [\<lparr>client_id = ''C1'', client_name = ''Globex Traders'', client_aliases = []\<rparr>,
      \<lparr>client_id = ''C2'', client_name = ''Initech'', client_aliases = []\<rparr>]) \<noteq> None \<and>
   3/4 \<le> confidence_score (match_client indel_ratio (3/4)
     \<lparr>primary_name = ''Globex Trading'', alternative_names = []\<rparr>
     [\<lparr>client_id = ''C1'', client_name = ''Globex Traders'', client_aliases = []\<rparr>,
      \<lparr>client_id = ''C2'', client_name = ''Initech'', client_aliases = []\<rparr>])"
proof -
  have pos: "(0 :: real) < 3/4" by simp
  have out: "outcome_of (match_client indel_ratio (3/4)
     \<lparr>primary_name = ''Globex Trading'', alternative_names = []\<rparr>
     [\<lparr>client_id = ''C1'', client_name = ''Globex Traders'', client_aliases = []\<rparr>,
      \<lparr>client_id = ''C2'', client_name = ''Initech'', client_aliases = []\<rparr>]) = USE_MATCH"
    by code_simp
  from decision_invariant_positive_threshold [OF pos, of indel_ratio
      "\<lparr>primary_name = ''Globex Trading'', alternative_names = []\<rparr>"
      "[\<lparr>client_id = ''C1'', client_name = ''Globex Traders'', client_aliases = []\<rparr>,
        \<lparr>client_id = ''C2'', client_name = ''Initech'', client_aliases = []\<rparr>]"]
  show ?thesis using pos out by blast
qed

text \<open>C5 (the code differs). The docstring of \<^verbatim>\<open>_match_client\<close> lists
  \<^verbatim>\<open>match_reasons\<close> and \<^verbatim>\<open>alternative_matches\<close> among the keys of the result. The
  result for an empty registry has neither key, and a \<open>CREATE_NEW_CLIENT\<close> result for a
  non-empty registry has no \<^verbatim>\<open>match_reasons\<close>.\<close>

theorem create_new_result_lacks_keys:
  "match_reasons (match_client indel_ratio (3/4)
     \<lparr>primary_name = ''Globex'', alternative_names = []\<rparr> []) = None \<and>
   alternative_matches (match_client indel_ratio (3/4)
     \<lparr>primary_name = ''Globex'', alternative_names = []\<rparr> []) = None \<and>
   outcome_of (match_client indel_ratio (3/4)
     \<lparr>primary_name = ''Globex'', alternative_names = []\<rparr>
     [\<lparr>client_id = ''C2'', client_name = ''Initech'', client_aliases = []\<rparr>]) =
     CREATE_NEW_CLIENT \<and>
   match_reasons (match_client indel_ratio (3/4)
     \<lparr>primary_name = ''Globex'', alternative_names = []\<rparr>
     [\<lparr>client_id = ''C2'', client_name = ''Initech'', client_aliases = []\<rparr>]) = None"
  by code_simp

text \<open>C6. For an empty registry the result is \<open>CREATE_NEW_CLIENT\<close> with confidence 0.0,
  no matched client id and the primary name as the suggested name, whatever the threshold;
  no comparison is made: the result is the same for every scorer.\<close>

theorem empty_registry_create_new:
  "outcome_of (match_client ratio threshold cand []) = CREATE_NEW_CLIENT \<and>
   confidence_score (match_client ratio threshold cand []) = 0 \<and>
   matched_client_id (match_client ratio threshold cand []) = None \<and>
   suggested_client_name (match_client ratio threshold cand []) = Some (primary_name cand) \<and>
   match_client ratio threshold cand [] = match_client ratio' threshold cand []"
  by (simp add: match_client_def outcome_of_def)

text \<open>C7, as stated, fails: the period of "L.L.C" is removed after the pass for
  \<^verbatim>\<open>" llc"\<close>, so the first result still ends in \<^verbatim>\<open>" llc"\<close> and a second pass
  removes it.\<close>

theorem normalize_not_idempotent:
  "normalize_name ''Acme L.L.C'' = ''acme llc'' \<and>
   normalize_name (normalize_name ''Acme L.L.C'') = ''acme'' \<and>
   normalize_name (normalize_name ''Acme L.L.C'') \<noteq> normalize_name ''Acme L.L.C''"
  by code_simp

text \<open>C7, amended. \<^verbatim>\<open>normalize(normalize(x)) == normalize(x)\<close> for every input \<open>x\<close>
  whose normalized form contains none of the seven designators of the list that have no
  period. (A normalized form never contains a comma or a period, is in lower case and is
  trimmed, so only these seven patterns can match in a second pass.)\<close>

theorem normalize_idempotent_without_designators:
  assumes "\<forall>p \<in> set ['' incorporated'', '' corporation'', '' llc'', '' ltd'', '' limited'',
      '' gmbh'', '' company'']. \<not> sublist p (normalize_name x)"
  shows "normalize_name (normalize_name x) = normalize_name x"
proof -
  define y where "y = normalize_name x"
  have low: "lower y = y"
    unfolding lower_def y_def by (rule map_idI) (simp add: normalize_name_chars)
  have dot: "CHR ''.'' \<notin> set y" and comma: "CHR '','' \<notin> set y"
    using normalize_name_chars [of _ x] unfolding y_def by blast+
  have punct: "\<not> sublist p y" if "CHR ''.'' \<in> set p \<or> CHR '','' \<in> set p" for p
    using that dot comma set_mono_sublist [of p y] by blast
  have "\<forall>r \<in> set replacements. fst r \<noteq> [] \<and> \<not> sublist (fst r) y"
    using assms punct unfolding y_def [symmetric] by (simp add: replacements_def)
  then have "replaced y = y" unfolding replaced_def by (rule fold_replace_absent)
  then have "normalize_name y = y"
    by (simp add: normalize_name_replaced low) (simp add: y_def strip_normalize_name)
  then show ?thesis by (simp add: y_def)
qed

theorem normalize_idempotent_without_designators_witness:
  "\<not> sublist '' incorporated'' (normalize_name ''Acme Holdings, Inc.'') \<and>
   \<not> sublist '' corporation'' (normalize_name ''Acme Holdings, Inc.'') \<and>
   \<not> sublist '' llc'' (normalize_name ''Acme Holdings, Inc.'') \<and>
   \<not> sublist '' ltd'' (normalize_name ''Acme Holdings, Inc.'') \<and>
   \<not> sublist '' limited'' (normalize_name ''Acme Holdings, Inc.'') \<and>
   \<not> sublist '' gmbh'' (normalize_name ''Acme Holdings, Inc.'') \<and>
   \<not> sublist '' company'' (normalize_name ''Acme Holdings, Inc.'') \<and>
   normalize_name ''Acme Holdings, Inc.'' = ''acme holdings'' \<and>
   normalize_name (normalize_name ''Acme Holdings, Inc.'') =
     normalize_name ''Acme Holdings, Inc.''"
proof -
  have n: "normalize_name ''Acme Holdings, Inc.'' = ''acme holdings''" by code_simp
  have h: "\<not> sublist '' incorporated'' ''acme holdings'' \<and>
      \<not> sublist '' corporation'' ''acme holdings'' \<and>
      \<not> sublist '' llc'' ''acme holdings'' \<and>
      \<not> sublist '' ltd'' ''acme holdings'' \<and>
      \<not> sublist '' limited'' ''acme holdings'' \<and>
      \<not> sublist '' gmbh'' ''acme holdings'' \<and>
      \<not> sublist '' company'' ''acme holdings''"
    by code_simp
  then have p: "\<forall>p \<in> set ['' incorporated'', '' corporation'', '' llc'', '' ltd'', '' limited'',
      '' gmbh'', '' company'']. \<not> sublist p (normalize_name ''Acme Holdings, Inc.'')"
    by (simp add: n)
  have "normalize_name (normalize_name ''Acme Holdings, Inc.'') =
      normalize_name ''Acme Holdings, Inc.''"
    using p by (rule normalize_idempotent_without_designators)
  then show ?thesis using h by (simp add: n)
qed

text \<open>C8. For a fixed candidate and registry and thresholds \<open>t1 \<le> t2\<close>: if the decision
  at \<open>t2\<close> is \<open>USE_MATCH\<close>, so is the decision at \<open>t1\<close>.\<close>

theorem threshold_monotone:
  "t1 \<le> t2 \<Longrightarrow> outcome_of (match_client ratio t2 cand reg) = USE_MATCH \<Longrightarrow>
   outcome_of (match_client ratio t1 cand reg) = USE_MATCH"
  by (auto simp: match_client_def outcome_of_def Let_def split: if_splits)

theorem threshold_monotone_witness:
  "(1/2 :: real) \<le> 3/4 \<and>
   outcome_of (match_client indel_ratio (3/4)
     \<lparr>primary_name = ''Globex Trading'', alternative_names = []\<rparr>
     [\<lparr>client_id = ''C1'', client_name = ''Globex Traders'', client_aliases = []\<rparr>]) = USE_MATCH \<and>
   outcome_of (match_client indel_ratio (1/2)
     \<lparr>primary_name = ''Globex Trading'', alternative_names = []\<rparr>
     [\<lparr>client_id = ''C1'', client_name = ''Globex Traders'', client_aliases = []\<rparr>]) = USE_MATCH"
proof -
  have le: "(1/2 :: real) \<le> 3/4" by simp
  have out: "outcome_of (match_client indel_ratio (3/4)
     \<lparr>primary_name = ''Globex Trading'', alternative_names = []\<rparr>
     [\<lparr>client_id = ''C1'', client_name = ''Globex Traders'', client_aliases = []\<rparr>]) = USE_MATCH"
    by code_simp
  from threshold_monotone [OF le out] show ?thesis using le out by blast
qed

text \<open>C9, as stated, fails. The primary name normalizes to the alias of client C2 and to
  no client name, and no comparison scores more than the 100 of that alias; but client C1
  scores 96 first, and from then on (running best above 95) the aliases are skipped: C1 is
  selected, with a reason that names its client name.\<close>

theorem alias_skipped_after_near_match:
  "normalize_name ''Acme Holdings'' = normalize_name ''Acme Holdings Inc.'' \<and>
   normalize_name ''Acme Holdings'' \<noteq> normalize_name ''Acme Holding'' \<and>
   normalize_name ''Acme Holdings'' \<noteq> normalize_name ''AH Group'' \<and>
   indel_ratio (normalize_name ''Acme Holdings'') (normalize_name ''Acme Holdings Inc.'') = 100 \<and>
   indel_ratio (normalize_name ''Acme Holdings'') (normalize_name ''Acme Holding'') = 96 \<and>
   indel_ratio (normalize_name ''Acme Holdings'') (normalize_name ''AH Group'') = 29 \<and>
   match_client indel_ratio (3/4)
     \<lparr>primary_name = ''Acme Holdings'', alternative_names = []\<rparr>
     [\<lparr>client_id = ''C1'', client_name = ''Acme Holding'', client_aliases = []\<rparr>,
      \<lparr>client_id = ''C2'', client_name = ''AH Group'',
       client_aliases = [''Acme Holdings Inc.'']\<rparr>] =
   \<lparr>matched_client_id = Some ''C1'', matched_client_name = Some ''Acme Holding'',
    confidence_score = 96 / 100, recommendation = None, suggested_client_name = None,
    match_reasons = Some [''Fuzzy match with score 96 against client name''],
    alternative_matches = Some []\<rparr>"
  by code_simp

text \<open>C9, amended. Let the scorer return 100 on identical strings and never more than
  100. If the primary name normalizes to an alias of client \<open>c\<close> and to the name of no
  client, every comparison made for the clients before \<open>c\<close> scores at most 95, the
  primary name scores at most 95 against the name of \<open>c\<close>, and the threshold is at most
  1.0, then \<open>c\<close> is selected through the alias comparison, with confidence 1.0; the only
  reason names the first alias of \<open>c\<close> that scores 100 against the primary name.\<close>

theorem alias_match_selected:
  assumes bounded: "\<forall>a b. ratio a b \<le> 100"
    and same: "\<forall>s. ratio s s = 100"
    and no_exact: "\<forall>k \<in> set (pre @ c # post).
        normalize_name (client_name k) \<noteq> normalize_name (primary_name cand)"
    and al: "alias \<in> set (client_aliases c)"
      "normalize_name alias = normalize_name (primary_name cand)"
    and before: "\<forall>k \<in> set pre. \<forall>n \<in> set (primary_name cand # alternative_names cand).
        ratio (normalize_name n) (normalize_name (client_name k)) \<le> 95 \<and>
        (\<forall>a \<in> set (client_aliases k). ratio (normalize_name n) (normalize_name a) \<le> 95)"
    and name_low:
      "ratio (normalize_name (primary_name cand)) (normalize_name (client_name c)) \<le> 95"
    and thr: "thr \<le> 1"
  shows "\<exists>w. find (\<lambda>a. ratio (normalize_name (primary_name cand)) (normalize_name a) = 100)
           (client_aliases c) = Some w \<and>
     outcome_of (match_client ratio thr cand (pre @ c # post)) = USE_MATCH \<and>
     matched_client_id (match_client ratio thr cand (pre @ c # post)) = Some (client_id c) \<and>
     matched_client_name (match_client ratio thr cand (pre @ c # post)) = Some (client_name c) \<and>
     confidence_score (match_client ratio thr cand (pre @ c # post)) = 1 \<and>
     match_reasons (match_client ratio thr cand (pre @ c # post)) = Some [alias_reason 100 w]"
proof -
  define np where "np = normalize_name (primary_name cand)"
  have b: "bounded_ratio ratio" using bounded by (simp add: bounded_ratio_def)
  have "ratio np (normalize_name alias) = 100" using same al(2) by (simp add: np_def)
  with al(1) have "find (\<lambda>a. ratio np (normalize_name a) = 100) (client_aliases c) \<noteq> None"
    by (auto simp: find_None_iff)
  then obtain w where w: "find (\<lambda>a. ratio np (normalize_name a) = 100) (client_aliases c) = Some w"
    by auto
  define s0 where "s0 = scan_clients ratio cand 0 pre init_state"
  define s1 where "s1 = s0\<lparr>best_score := 100, best_match := Some (length pre),
        best_client_id := Some (client_id c),
        best_client_name := Some (client_name c),
        reasons := [alias_reason 100 w]\<rparr>"
  from no_exact have ne_pre: "\<forall>k \<in> set pre.
      normalize_name (client_name k) \<noteq> normalize_name (primary_name cand)"
    and ne_c: "normalize_name (primary_name cand) \<noteq> normalize_name (client_name c)"
    and ne_post: "\<forall>k \<in> set post.
      normalize_name (client_name k) \<noteq> normalize_name (primary_name cand)"
    by auto
  have low: "\<forall>k \<in> set pre. low_scores ratio (primary_name cand # alternative_names cand) k"
    using before unfolding low_scores_def by blast
  have "best_score init_state \<le> 95" by (simp add: init_state_def)
  then have s0_low: "best_score s0 \<le> 95"
    unfolding s0_def using ne_pre low by (rule scan_clients_low)
  have pc: "process_client ratio cand (length pre) c s0 = s1"
    unfolding s1_def
    using b s0_low name_low w [unfolded np_def] by (rule process_client_win)
  have top: "best_score s1 = 100" by (simp add: s1_def)
  have "scan_clients ratio cand 0 (pre @ c # post) init_state =
      scan_clients ratio cand (0 + length pre) (c # post) s0"
    unfolding s0_def using ne_pre by (rule scan_clients_append)
  also have "\<dots> = scan_clients ratio cand (Suc (length pre)) post s1"
    using ne_c by (simp add: pc)
  also have "\<dots> = s1" using b top ne_post by (rule scan_clients_top)
  finally have scan: "scan_clients ratio cand 0 (pre @ c # post) init_state = s1" .
  have "outcome_of (match_client ratio thr cand (pre @ c # post)) = USE_MATCH \<and>
     matched_client_id (match_client ratio thr cand (pre @ c # post)) = Some (client_id c) \<and>
     matched_client_name (match_client ratio thr cand (pre @ c # post)) = Some (client_name c) \<and>
     confidence_score (match_client ratio thr cand (pre @ c # post)) = 1 \<and>
     match_reasons (match_client ratio thr cand (pre @ c # post)) = Some [alias_reason 100 w]"
    using thr by (simp add: match_client_def Let_def scan outcome_of_def) (simp add: s1_def)
  with w show ?thesis unfolding np_def by blast
qed

theorem alias_match_selected_witness:
  "normalize_name ''Acme Holdings Inc.'' = normalize_name ''Acme Holdings'' \<and>
   normalize_name ''Initech'' \<noteq> normalize_name ''Acme Holdings'' \<and>
   normalize_name ''AH Group'' \<noteq> normalize_name ''Acme Holdings'' \<and>
   normalize_name ''Acme Holding'' \<noteq> normalize_name ''Acme Holdings'' \<and>
   indel_ratio (normalize_name ''Acme Holdings'') (normalize_name ''Initech'') \<le> 95 \<and>
   indel_ratio (normalize_name ''Acme Holdings'') (normalize_name ''Initech Systems'') \<le> 95 \<and>
   indel_ratio (normalize_name ''Acme Holdings'') (normalize_name ''AH Group'') \<le> 95 \<and>
   outcome_of (match_client indel_ratio (3/4)
     \<lparr>primary_name = ''Acme Holdings'', alternative_names = []\<rparr>
     [\<lparr>client_id = ''C1'', client_name = ''Initech'', client_aliases = [''Initech Systems'']\<rparr>,
      \<lparr>client_id = ''C2'', client_name = ''AH Group'',
       client_aliases = [''Acme Hldgs'', ''Acme Holdings Inc.'']\<rparr>,
      \<lparr>client_id = ''C3'', client_name = ''Acme Holding'', client_aliases = []\<rparr>]) =
     USE_MATCH \<and>
   matched_client_id (match_client indel_ratio (3/4)
     \<lparr>primary_name = ''Acme Holdings'', alternative_names = []\<rparr>
     [\<lparr>client_id = ''C1'', client_name = ''Initech'', client_aliases = [''Initech Systems'']\<rparr>,
      \<lparr>client_id = ''C2'', client_name = ''AH Group'',
       client_aliases = [''Acme Hldgs'', ''Acme Holdings Inc.'']\<rparr>,
      \<lparr>client_id = ''C3'', client_name = ''Acme Holding'', client_aliases = []\<rparr>]) =
     Some ''C2'' \<and>
   match_reasons (match_client indel_ratio (3/4)
     \<lparr>primary_name = ''Acme Holdings'', alternative_names = []\<rparr>
     [\<lparr>client_id = ''C1'', client_name = ''Initech'', client_aliases = [''Initech Systems'']\<rparr>,
      \<lparr>client_id = ''C2'', client_name = ''AH Group'',
       client_aliases = [''Acme Hldgs'', ''Acme Holdings Inc.'']\<rparr>,
      \<lparr>client_id = ''C3'', client_name = ''Acme Holding'', client_aliases = []\<rparr>]) =
     Some [alias_reason 100 ''Acme Holdings Inc.'']"
proof -
  define cand where "cand = \<lparr>primary_name = ''Acme Holdings'', alternative_names = []\<rparr>"
  define c1 where
    "c1 = \<lparr>client_id = ''C1'', client_name = ''Initech'', client_aliases = [''Initech Systems'']\<rparr>"
  define c2 where
    "c2 = \<lparr>client_id = ''C2'', client_name = ''AH Group'',
           client_aliases = [''Acme Hldgs'', ''Acme Holdings Inc.'']\<rparr>"
  define c3 where
    "c3 = \<lparr>client_id = ''C3'', client_name = ''Acme Holding'', client_aliases = []\<rparr>"
  have e: "normalize_name ''Acme Holdings Inc.'' = normalize_name ''Acme Holdings''"
    by code_simp
  have n1: "normalize_name ''Initech'' \<noteq> normalize_name ''Acme Holdings''" by code_simp
  have n2: "normalize_name ''AH Group'' \<noteq> normalize_name ''Acme Holdings''" by code_simp
  have n3: "normalize_name ''Acme Holding'' \<noteq> normalize_name ''Acme Holdings''" by code_simp
  have l1: "indel_ratio (normalize_name ''Acme Holdings'') (normalize_name ''Initech'') \<le> 95"
    by code_simp
  have l2: "indel_ratio (normalize_name ''Acme Holdings'') (normalize_name ''Initech Systems'')
      \<le> 95"
    by code_simp
  have l3: "indel_ratio (normalize_name ''Acme Holdings'') (normalize_name ''AH Group'') \<le> 95"
    by code_simp
  have f: "find (\<lambda>a. indel_ratio (normalize_name ''Acme Holdings'') (normalize_name a) = 100)
      [''Acme Hldgs'', ''Acme Holdings Inc.''] = Some ''Acme Holdings Inc.''"
    by code_simp
  have h1: "\<forall>a b. indel_ratio a b \<le> 100" by (simp add: indel_ratio_le)
  have h2: "\<forall>s. indel_ratio s s = 100" by (simp add: indel_ratio_same)
  have h3: "\<forall>k \<in> set ([c1] @ c2 # [c3]).
      normalize_name (client_name k) \<noteq> normalize_name (primary_name cand)"
    using n1 n2 n3 by (simp add: cand_def c1_def c2_def c3_def)
  have h4: "''Acme Holdings Inc.'' \<in> set (client_aliases c2)" by (simp add: c2_def)
  have h5: "normalize_name ''Acme Holdings Inc.'' = normalize_name (primary_name cand)"
    using e by (simp add: cand_def)
  have h6: "\<forall>k \<in> set [c1]. \<forall>n \<in> set (primary_name cand # alternative_names cand).
      indel_ratio (normalize_name n) (normalize_name (client_name k)) \<le> 95 \<and>
      (\<forall>a \<in> set (client_aliases k). indel_ratio (normalize_name n) (normalize_name a) \<le> 95)"
    using l1 l2 by (simp add: cand_def c1_def)
  have h7: "indel_ratio (normalize_name (primary_name cand)) (normalize_name (client_name c2))
      \<le> 95"
    using l3 by (simp add: cand_def c2_def)
  have h8: "(3/4 :: real) \<le> 1" by simp
  from alias_match_selected [OF h1 h2 h3 h4 h5 h6 h7 h8]
  obtain w where
    w: "find (\<lambda>a. indel_ratio (normalize_name (primary_name cand)) (normalize_name a) = 100)
          (client_aliases c2) = Some w"
    and r1: "outcome_of (match_client indel_ratio (3/4) cand ([c1] @ c2 # [c3])) = USE_MATCH"
    and r2: "matched_client_id (match_client indel_ratio (3/4) cand ([c1] @ c2 # [c3])) =
          Some (client_id c2)"
    and r3: "match_reasons (match_client indel_ratio (3/4) cand ([c1] @ c2 # [c3])) =
          Some [alias_reason 100 w]"
    by blast
  from w f have "w = ''Acme Holdings Inc.''" by (simp add: cand_def c2_def)
  with r1 r2 r3 e n1 n2 n3 l1 l2 l3 show ?thesis
    by (simp add: cand_def c1_def c2_def c3_def)
qed

text \<open>C10. Whenever the decision has an \<^verbatim>\<open>alternative_matches\<close> sequence, that is for
  every non-empty registry, the sequence is in descending order of confidence and has at
  most 3 entries for \<open>USE_MATCH\<close> and at most 5 for \<open>CREATE_NEW_CLIENT\<close>. (The result for
  the empty registry has no such key.)\<close>

theorem alternatives_sorted_and_capped:
  "case alternative_matches (match_client ratio thr cand reg) of
     None \<Rightarrow> reg = []
   | Some alts \<Rightarrow>
       sorted_wrt (\<ge>) (map alt_confidence_score alts) \<and>
       length alts \<le> (case outcome_of (match_client ratio thr cand reg) of
                        USE_MATCH \<Rightarrow> 3 | CREATE_NEW_CLIENT \<Rightarrow> 5)"
  by (simp add: match_client_def Let_def outcome_of_def take_sorted_desc)

theorem alternatives_sorted_and_capped_witness:
  "alternative_matches (match_client indel_ratio (3/4)
     \<lparr>primary_name = ''Globex Trading'', alternative_names = []\<rparr>
     [\<lparr>client_id = ''C1'', client_name = ''Globex Traders'', client_aliases = []\<rparr>,
      \<lparr>client_id = ''C2'', client_name = ''Initech'', client_aliases = []\<rparr>]) =
     Some [\<lparr>alt_client_id = ''C2'', alt_client_name = ''Initech'',
            alt_confidence_score = 79 / 100\<rparr>] \<and>
   sorted_wrt (\<ge>) (map alt_confidence_score
     [\<lparr>alt_client_id = ''C2'', alt_client_name = ''Initech'',
       alt_confidence_score = 79 / 100\<rparr>])"
proof -
  have a: "alternative_matches (match_client indel_ratio (3/4)
     \<lparr>primary_name = ''Globex Trading'', alternative_names = []\<rparr>
     [\<lparr>client_id = ''C1'', client_name = ''Globex Traders'', client_aliases = []\<rparr>,
      \<lparr>client_id = ''C2'', client_name = ''Initech'', client_aliases = []\<rparr>]) =
     Some [\<lparr>alt_client_id = ''C2'', alt_client_name = ''Initech'',
            alt_confidence_score = 79 / 100\<rparr>]"
    by code_simp
  from alternatives_sorted_and_capped [where ratio = indel_ratio and thr = "3/4"
      and cand = "\<lparr>primary_name = ''Globex Trading'', alternative_names = []\<rparr>"
      and reg = "[\<lparr>client_id = ''C1'', client_name = ''Globex Traders'', client_aliases = []\<rparr>,
        \<lparr>client_id = ''C2'', client_name = ''Initech'', client_aliases = []\<rparr>]"]
  have "sorted_wrt (\<ge>) (map alt_confidence_score
     [\<lparr>alt_client_id = ''C2'', alt_client_name = ''Initech'',
       alt_confidence_score = 79 / 100\<rparr>])"
    unfolding a by simp
  with a show ?thesis by (rule conjI)
qed

end
